theory Spec2Isabelle
  imports Complex_Main "HOL-Library.Char_ord"
begin

section \<open>The transcript tool: video-ID extraction, transcript assembly, button flow\<close>

text \<open>
  The program is one Python file, \<^verbatim>\<open>app.py\<close>, with three functions:
  \<^verbatim>\<open>extract_video_id\<close>, \<^verbatim>\<open>fetch_transcript\<close> and \<^verbatim>\<open>main\<close>.

  Python strings are modelled as \<^typ>\<open>string\<close>, read as the UTF-8 encoding of the Python
  string. The search pattern names ASCII characters only and is compiled without flags, so
  it matches at the same places, with the same group, in the encoded string: a byte below
  128 occurs in UTF-8 only as the encoding of the ASCII character itself.
\<close>

subsection \<open>\<^verbatim>\<open>extract_video_id\<close>\<close>

text \<open>
  \<^verbatim>\<open>pattern = r"(?:v=|/)([0-9A-Za-z_-]{11})"\<close>

  The character class \<^verbatim>\<open>[0-9A-Za-z_-]\<close>: three ranges and the two literals \<^verbatim>\<open>_\<close>
  and \<^verbatim>\<open>-\<close> (a hyphen at the end of a class is a literal).
\<close>

definition is_id_char :: "char \<Rightarrow> bool" where
  "is_id_char c \<longleftrightarrow>
     (CHR ''0'' \<le> c \<and> c \<le> CHR ''9'') \<or>
     (CHR ''A'' \<le> c \<and> c \<le> CHR ''Z'') \<or>
     (CHR ''a'' \<le> c \<and> c \<le> CHR ''z'') \<or>
     c = CHR ''_'' \<or> c = CHR ''-''"

text \<open>
  The capturing group \<^verbatim>\<open>([0-9A-Za-z_-]{11})\<close> tried at the head of \<open>s\<close>: it needs
  eleven characters of the class, one after the other, and captures them. Nothing is asked
  of what comes after the eleventh.
\<close>

definition id_group :: "string \<Rightarrow> string option" where
  "id_group s =
     (if 11 \<le> length s \<and> list_all is_id_char (take 11 s) then Some (take 11 s) else None)"

text \<open>
  The whole pattern tried at the head of \<open>s\<close>. The non-capturing alternation
  \<^verbatim>\<open>(?:v=|/)\<close> tries \<^verbatim>\<open>v=\<close> first; when the rest of the pattern fails after it, the
  engine backtracks to the second alternative \<^verbatim>\<open>/\<close>. The result is group 1.
\<close>

definition match_here :: "string \<Rightarrow> string option" where
  "match_here s =
     (case (if take 2 s = ''v='' then id_group (drop 2 s) else None) of
        Some g \<Rightarrow> Some g
      | None \<Rightarrow> (if take 1 s = ''/'' then id_group (drop 1 s) else None))"

text \<open>
  \<^verbatim>\<open>re.search\<close> scans the start positions from left to right, the end of the string
  included, and stops at the first position where the pattern matches.
\<close>

fun re_search :: "string \<Rightarrow> string option" where
  "re_search [] = match_here []"
| "re_search (c # cs) =
     (case match_here (c # cs) of
        Some g \<Rightarrow> Some g
      | None \<Rightarrow> re_search cs)"

text \<open>
  \<^verbatim>\<open>match = re.search(pattern, url); return match.group(1) if match else None\<close>
\<close>

definition extract_video_id :: "string \<Rightarrow> string option" where
  "extract_video_id url =
     (case re_search url of
        Some g \<Rightarrow> Some g
      | None \<Rightarrow> None)"

subsection \<open>\<^verbatim>\<open>fetch_transcript\<close>\<close>

text \<open>
  The retrieval call \<^verbatim>\<open>YouTubeTranscriptApi.get_transcript\<close> is outside the program: it
  is a parameter of the model. It returns a list of dictionaries or raises. The values of
  a dictionary are strings (the \<^verbatim>\<open>text\<close>) or floats (\<^verbatim>\<open>start\<close>, \<^verbatim>\<open>duration\<close>); the
  floats are carried and never computed with.
\<close>

datatype pyval = PStr string | PFloat real

type_synonym segment = "string \<rightharpoonup> pyval"

text \<open>
  What is raised inside \<^verbatim>\<open>fetch_transcript\<close> and caught by \<^verbatim>\<open>except Exception\<close> in
  \<^verbatim>\<open>main\<close>: a failed retrieval call, which raises an \<^verbatim>\<open>Exception\<close> as the docstring of
  \<^verbatim>\<open>fetch_transcript\<close> says, kept here by its description \<^verbatim>\<open>str(exc)\<close>; the
  \<^verbatim>\<open>KeyError\<close> of \<^verbatim>\<open>entry["text"]\<close> on a dictionary without that key; and the
  \<^verbatim>\<open>TypeError\<close> of \<^verbatim>\<open>str.join\<close> on an item that is not a string, which names the index
  of the item.
\<close>

datatype exn = Retrieval_error string | KeyError_text | TypeError nat

fun show_nat :: "nat \<Rightarrow> string" where
  "show_nat n =
     (if n < 10 then [char_of (48 + n)]
      else show_nat (n div 10) @ [char_of (48 + n mod 10)])"

declare show_nat.simps [simp del]

text \<open>
  \<^verbatim>\<open>str(exc)\<close>. A \<^verbatim>\<open>KeyError\<close> prints the \<^verbatim>\<open>repr\<close> of its key; the key is the
  literal \<^verbatim>\<open>text\<close>, whose \<^verbatim>\<open>repr\<close> is the word between single quotes.
\<close>

fun describe :: "exn \<Rightarrow> string" where
  "describe (Retrieval_error d) = d"
| "describe KeyError_text = [CHR 0x27] @ ''text'' @ [CHR 0x27]"
| "describe (TypeError i) =
     ''sequence item '' @ show_nat i @ '': expected str instance, float found''"

text \<open>\<^verbatim>\<open>entry["text"]\<close>\<close>

definition getitem_text :: "segment \<Rightarrow> exn + pyval" where
  "getitem_text entry =
     (case entry ''text'' of None \<Rightarrow> Inl KeyError_text | Some v \<Rightarrow> Inr v)"

text \<open>
  The generator \<^verbatim>\<open>entry["text"] for entry in transcript_list\<close>. \<^verbatim>\<open>str.join\<close> first
  runs the generator to its end, so a missing key is raised before any item is looked at.
\<close>

fun texts :: "segment list \<Rightarrow> exn + pyval list" where
  "texts [] = Inr []"
| "texts (entry # entries) =
     (case getitem_text entry of
        Inl exc \<Rightarrow> Inl exc
      | Inr v \<Rightarrow> (case texts entries of Inl exc \<Rightarrow> Inl exc | Inr vs \<Rightarrow> Inr (v # vs)))"

text \<open>\<^verbatim>\<open>str.join\<close>: every item must be a string; then the items are put together.\<close>

fun str_items :: "nat \<Rightarrow> pyval list \<Rightarrow> exn + string list" where
  "str_items i [] = Inr []"
| "str_items i (PStr t # vs) =
     (case str_items (Suc i) vs of Inl exc \<Rightarrow> Inl exc | Inr ts \<Rightarrow> Inr (t # ts))"
| "str_items i (PFloat x # vs) = Inl (TypeError i)"

fun join :: "string \<Rightarrow> string list \<Rightarrow> string" where
  "join sep [] = []"
| "join sep [t] = t"
| "join sep (t # u # ts) = t @ sep @ join sep (u # ts)"

definition str_join :: "string \<Rightarrow> pyval list \<Rightarrow> exn + string" where
  "str_join sep vs =
     (case str_items 0 vs of Inl exc \<Rightarrow> Inl exc | Inr ts \<Rightarrow> Inr (join sep ts))"

text \<open>
  \<^verbatim>\<open>transcript_list = YouTubeTranscriptApi.get_transcript(video_id)\<close>
  \<^verbatim>\<open>return "\n".join(entry["text"] for entry in transcript_list)\<close>
\<close>

definition fetch_transcript :: "(string \<Rightarrow> exn + segment list) \<Rightarrow> string \<Rightarrow> exn + string" where
  "fetch_transcript get_transcript video_id =
     (case get_transcript video_id of
        Inl exc \<Rightarrow> Inl exc
      | Inr transcript_list \<Rightarrow>
          (case texts transcript_list of
             Inl exc \<Rightarrow> Inl exc
           | Inr vs \<Rightarrow> str_join [CHR 0x0A] vs))"

subsection \<open>\<^verbatim>\<open>main\<close>\<close>

text \<open>
  One run of the script. What the run reads from the page is its input: the value of the
  text field and whether the button was pressed. What it does to the page is its output:
  the widget calls in the order they are made. The calls of \<^verbatim>\<open>extract_video_id\<close> and
  \<^verbatim>\<open>fetch_transcript\<close> are recorded in the same list, at the place where the source makes
  them, so that a run that never reaches a call is told from one that does.
\<close>

datatype event =
    Set_page_config string string
  | Title string
  | Write string
  | Text_input string string string
  | Button string string
  | Error string
  | Spinner_enter string
  | Spinner_exit
  | Success string
  | Text_area string string nat string
  | Download_button string string string string
  | Call_extract_video_id string
  | Call_fetch_transcript string

record page_input =
  video_url :: string
  button_pressed :: bool

text \<open>The part of \<^verbatim>\<open>main\<close> before the button: page set-up, text field, button.\<close>

definition page_head :: "event list" where
  "page_head =
     [Set_page_config ''YouTube Transcript Copier'' [CHR 0xF0, CHR 0x9F, CHR 0x93, CHR 0x8B],
      Title ''YouTube Transcript Copier'',
      Write (''Paste a YouTube video URL below and click **Get Transcript** to fetch its'' @
             '' captions as text. You can then download the transcript as a file or copy'' @
             '' the text manually from the box.''),
      Text_input ''Enter YouTube Video URL:'' ''https://www.youtube.com/watch?v=example''
        ''video_url'',
      Button ''Get Transcript'' ''fetch_button'']"

text \<open>
  The part after a successful fetch. Leaving the \<^verbatim>\<open>with st.spinner\<close> block comes first.
\<close>

definition page_result :: "string \<Rightarrow> event list" where
  "page_result transcript =
     [Spinner_exit,
      Success ''Transcript fetched successfully!'',
      Write ''Below is the transcript of your video. You can scroll and copy.'',
      Text_area ''Transcript'' transcript 300
        ''Click inside and press Ctrl+A to select all.'',
      Download_button ''Download Transcript as .txt'' transcript ''youtube_transcript.txt''
        ''text/plain'']"

text \<open>
  \<^verbatim>\<open>not video_url\<close> holds of the empty string only. Each \<^verbatim>\<open>return\<close> of the source ends
  the list; the \<^verbatim>\<open>return\<close> inside the \<^verbatim>\<open>with\<close> block leaves the spinner on its way out.
\<close>

definition main :: "(string \<Rightarrow> exn + segment list) \<Rightarrow> page_input \<Rightarrow> event list" where
  "main get_transcript inp =
     (if button_pressed inp then
        (if video_url inp = [] then
           page_head @ [Error ''Please enter a YouTube URL.'']
         else
           (case extract_video_id (video_url inp) of
              None \<Rightarrow>
                page_head @ [Call_extract_video_id (video_url inp),
                  Error ''Invalid YouTube URL. Please check the link and try again.'']
            | Some video_id \<Rightarrow>
                (case fetch_transcript get_transcript video_id of
                   Inl exc \<Rightarrow>
                     page_head @ [Call_extract_video_id (video_url inp),
                       Spinner_enter ''Fetching transcript...'',
                       Call_fetch_transcript video_id,
                       Error (''Sorry, there was a problem fetching the transcript: '' @
                              describe exc @ ''.''),
                       Spinner_exit]
                 | Inr transcript \<Rightarrow>
                     page_head @ [Call_extract_video_id (video_url inp),
                       Spinner_enter ''Fetching transcript...'',
                       Call_fetch_transcript video_id] @ page_result transcript)))
      else page_head)"

text \<open>What is read off a run.\<close>

fun error_of :: "event \<Rightarrow> string option" where
  "error_of (Error m) = Some m"
| "error_of _ = None"

fun extractor_call_of :: "event \<Rightarrow> string option" where
  "extractor_call_of (Call_extract_video_id u) = Some u"
| "extractor_call_of _ = None"

fun fetcher_call_of :: "event \<Rightarrow> string option" where
  "fetcher_call_of (Call_fetch_transcript v) = Some v"
| "fetcher_call_of _ = None"

fun is_result :: "event \<Rightarrow> bool" where
  "is_result (Success m) = True"
| "is_result (Text_area l v h p) = True"
| "is_result (Download_button l d f m) = True"
| "is_result _ = False"

definition errors_shown :: "event list \<Rightarrow> string list" where
  "errors_shown tr = List.map_filter error_of tr"

definition extractor_calls :: "event list \<Rightarrow> string list" where
  "extractor_calls tr = List.map_filter extractor_call_of tr"

definition fetcher_calls :: "event list \<Rightarrow> string list" where
  "fetcher_calls tr = List.map_filter fetcher_call_of tr"

definition results_shown :: "event list \<Rightarrow> event list" where
  "results_shown tr = filter is_result tr"

subsection \<open>The notions of the specification\<close>

text \<open>
  An occurrence, in \<open>s\<close>, of \<^verbatim>\<open>v=\<close> or \<^verbatim>\<open>/\<close> immediately followed by eleven characters
  of the class: \<open>s\<close> is \<open>pre\<close>, then the prefix \<open>p\<close>, then the eleven characters \<open>r\<close>,
  then \<open>post\<close>. The length of \<open>pre\<close> is the position of the occurrence.
\<close>

definition occurrence :: "string \<Rightarrow> string \<Rightarrow> string \<Rightarrow> string \<Rightarrow> string \<Rightarrow> bool" where
  "occurrence s pre p r post \<longleftrightarrow>
     s = pre @ p @ r @ post \<and> (p = ''v='' \<or> p = ''/'') \<and>
     length r = 11 \<and> list_all is_id_char r"

text \<open>
  The transcript as the specification writes it: \<open>t1 + "\n" + t2 + ... + "\n" + tN\<close>, the
  sum taken from the left, and the empty string for no text at all.
\<close>

definition assembled :: "string list \<Rightarrow> string" where
  "assembled ts =
     (case ts of
        [] \<Rightarrow> []
      | t # rest \<Rightarrow> foldl (\<lambda>acc u. acc @ [CHR 0x0A] @ u) t rest)"

text \<open>
  Whitespace, for the input made of whitespace only: the characters of Python's
  \<^verbatim>\<open>string.whitespace\<close> (space, tab, line feed, carriage return, vertical tab, form feed).
\<close>

definition is_whitespace :: "char \<Rightarrow> bool" where
  "is_whitespace c \<longleftrightarrow>
     c = CHR '' '' \<or> c = CHR 0x09 \<or> c = CHR 0x0A \<or> c = CHR 0x0D \<or> c = CHR 0x0B \<or> c = CHR 0x0C"

section \<open>Properties of the extraction\<close>

subsection \<open>What the pattern matches at one position, and where the search stops\<close>

lemma id_group_Some_iff:
  "id_group s = Some r \<longleftrightarrow> length r = 11 \<and> list_all is_id_char r \<and> (\<exists>post. s = r @ post)"
proof
  assume "id_group s = Some r"
  then have a: "11 \<le> length s" "list_all is_id_char (take 11 s)" "r = take 11 s"
    by (auto simp: id_group_def split: if_splits)
  have "\<exists>post. s = r @ post" using a(3) by (metis append_take_drop_id)
  moreover have "length r = 11" using a by simp
  ultimately show "length r = 11 \<and> list_all is_id_char r \<and> (\<exists>post. s = r @ post)"
    using a by simp
next
  assume "length r = 11 \<and> list_all is_id_char r \<and> (\<exists>post. s = r @ post)"
  then show "id_group s = Some r"
    by (auto simp: id_group_def)
qed

lemma id_char_not_slash: "\<not> is_id_char CHR ''/''"
  by (simp add: is_id_char_def)

lemma id_char_not_eq: "\<not> is_id_char CHR ''=''"
  by (simp add: is_id_char_def)

lemma match_here_Some_iff:
  "match_here s = Some r \<longleftrightarrow>
     (\<exists>p post. s = p @ r @ post \<and> (p = ''v='' \<or> p = ''/'') \<and>
        length r = 11 \<and> list_all is_id_char r)"
proof
  assume m: "match_here s = Some r"
  show "\<exists>p post. s = p @ r @ post \<and> (p = ''v='' \<or> p = ''/'') \<and>
        length r = 11 \<and> list_all is_id_char r"
  proof (cases "take 2 s = ''v='' \<and> id_group (drop 2 s) = Some r")
    case True
    then obtain post where "drop 2 s = r @ post" "length r = 11" "list_all is_id_char r"
      by (auto simp: id_group_Some_iff)
    moreover have "s = take 2 s @ drop 2 s" by simp
    ultimately show ?thesis using True by metis
  next
    case False
    with m have b: "take 1 s = ''/''" "id_group (drop 1 s) = Some r"
      by (auto simp: match_here_def split: if_splits option.splits)
    then obtain post where "drop 1 s = r @ post" "length r = 11" "list_all is_id_char r"
      by (auto simp: id_group_Some_iff)
    moreover have "s = take 1 s @ drop 1 s" by simp
    ultimately show ?thesis using b by metis
  qed
next
  assume "\<exists>p post. s = p @ r @ post \<and> (p = ''v='' \<or> p = ''/'') \<and>
        length r = 11 \<and> list_all is_id_char r"
  then obtain p post where s: "s = p @ r @ post" and p: "p = ''v='' \<or> p = ''/''"
    and r: "length r = 11" "list_all is_id_char r" by blast
  have g: "id_group (r @ post) = Some r" using r by (auto simp: id_group_Some_iff)
  from p show "match_here s = Some r"
  proof
    assume "p = ''v=''"
    with s g show ?thesis by (simp add: match_here_def)
  next
    assume "p = ''/''"
    with s g show ?thesis by (simp add: match_here_def)
  qed
qed

lemma re_search_None_iff:
  "re_search s = None \<longleftrightarrow> (\<forall>pre rest. s = pre @ rest \<longrightarrow> match_here rest = None)"
proof (induction s)
  case Nil
  then show ?case by simp
next
  case (Cons c cs)
  show ?case
  proof
    assume n: "re_search (c # cs) = None"
    then have h: "match_here (c # cs) = None" and t: "re_search cs = None"
      by (auto split: option.splits)
    show "\<forall>pre rest. c # cs = pre @ rest \<longrightarrow> match_here rest = None"
    proof (intro allI impI)
      fix pre rest assume e: "c # cs = pre @ rest"
      show "match_here rest = None"
      proof (cases pre)
        case Nil
        with e h show ?thesis by simp
      next
        case (Cons a pre')
        with e have "cs = pre' @ rest" by simp
        with t Cons.IH show ?thesis by blast
      qed
    qed
  next
    assume a: "\<forall>pre rest. c # cs = pre @ rest \<longrightarrow> match_here rest = None"
    then have "match_here (c # cs) = None" by (metis append_Nil)
    moreover have "\<forall>pre rest. cs = pre @ rest \<longrightarrow> match_here rest = None"
      using a by (metis append_Cons)
    ultimately show "re_search (c # cs) = None" using Cons.IH by simp
  qed
qed

lemma re_search_Some_iff:
  "re_search s = Some r \<longleftrightarrow>
     (\<exists>pre rest. s = pre @ rest \<and> match_here rest = Some r \<and>
        (\<forall>pre' rest'. s = pre' @ rest' \<and> length pre' < length pre \<longrightarrow> match_here rest' = None))"
proof (induction s)
  case Nil
  then show ?case by auto
next
  case (Cons c cs)
  show ?case
  proof (cases "match_here (c # cs)")
    case (Some g)
    show ?thesis
    proof
      assume "re_search (c # cs) = Some r"
      with Some have "match_here (c # cs) = Some r" by simp
      then show "\<exists>pre rest. c # cs = pre @ rest \<and> match_here rest = Some r \<and>
        (\<forall>pre' rest'. c # cs = pre' @ rest' \<and> length pre' < length pre \<longrightarrow> match_here rest' = None)"
        by (intro exI[of _ "[]"] exI[of _ "c # cs"]) simp
    next
      assume "\<exists>pre rest. c # cs = pre @ rest \<and> match_here rest = Some r \<and>
        (\<forall>pre' rest'. c # cs = pre' @ rest' \<and> length pre' < length pre \<longrightarrow> match_here rest' = None)"
      then obtain pre rest where e: "c # cs = pre @ rest" and m: "match_here rest = Some r"
        and l: "\<forall>pre' rest'. c # cs = pre' @ rest' \<and> length pre' < length pre \<longrightarrow> match_here rest' = None"
        by blast
      have "pre = []"
      proof (rule ccontr)
        assume "pre \<noteq> []"
        then have "length [] < length pre" by simp
        with l have "match_here (c # cs) = None" by (metis append_Nil)
        with Some show False by simp
      qed
      with e have "rest = c # cs" by simp
      with m show "re_search (c # cs) = Some r" by simp
    qed
  next
    case None
    then have step: "re_search (c # cs) = re_search cs" by simp
    show ?thesis
    proof
      assume "re_search (c # cs) = Some r"
      with step Cons.IH obtain pre rest where e: "cs = pre @ rest" and m: "match_here rest = Some r"
        and l: "\<forall>pre' rest'. cs = pre' @ rest' \<and> length pre' < length pre \<longrightarrow> match_here rest' = None"
        by auto
      have "\<forall>pre' rest'. c # cs = pre' @ rest' \<and> length pre' < length (c # pre) \<longrightarrow> match_here rest' = None"
      proof (intro allI impI)
        fix pre' rest' assume a: "c # cs = pre' @ rest' \<and> length pre' < length (c # pre)"
        show "match_here rest' = None"
        proof (cases pre')
          case Nil
          with a None show ?thesis by simp
        next
          case (Cons x q)
          with a have "cs = q @ rest'" "length q < length pre" by auto
          with l show ?thesis by blast
        qed
      qed
      with e m show "\<exists>pre rest. c # cs = pre @ rest \<and> match_here rest = Some r \<and>
        (\<forall>pre' rest'. c # cs = pre' @ rest' \<and> length pre' < length pre \<longrightarrow> match_here rest' = None)"
        by (intro exI[of _ "c # pre"] exI[of _ rest]) simp
    next
      assume "\<exists>pre rest. c # cs = pre @ rest \<and> match_here rest = Some r \<and>
        (\<forall>pre' rest'. c # cs = pre' @ rest' \<and> length pre' < length pre \<longrightarrow> match_here rest' = None)"
      then obtain pre rest where e: "c # cs = pre @ rest" and m: "match_here rest = Some r"
        and l: "\<forall>pre' rest'. c # cs = pre' @ rest' \<and> length pre' < length pre \<longrightarrow> match_here rest' = None"
        by blast
      from e m None obtain q where q: "pre = c # q" "cs = q @ rest"
        by (cases pre) auto
      have "\<forall>pre' rest'. cs = pre' @ rest' \<and> length pre' < length q \<longrightarrow> match_here rest' = None"
      proof (intro allI impI)
        fix pre' rest' assume a: "cs = pre' @ rest' \<and> length pre' < length q"
        then have "c # cs = (c # pre') @ rest' \<and> length (c # pre') < length pre"
          using q by simp
        with l show "match_here rest' = None" by blast
      qed
      with q m Cons.IH have "re_search cs = Some r" by blast
      with step show "re_search (c # cs) = Some r" by simp
    qed
  qed
qed


lemma occurrence_match:
  assumes "occurrence s pre p r post"
  shows "match_here (p @ r @ post) = Some r"
  using assms unfolding occurrence_def match_here_Some_iff by blast

lemma match_occurrence:
  assumes "s = pre @ rest" "match_here rest = Some r"
  shows "\<exists>p post. occurrence s pre p r post"
  using assms unfolding occurrence_def match_here_Some_iff by blast

lemma occurrence_same_start:
  assumes a: "occurrence s pre p r post" and b: "occurrence s pre' p' r' post'"
    and l: "length pre = length pre'"
  shows "p = p' \<and> r = r'"
proof -
  from a b have "pre @ (p @ r @ post) = pre' @ (p' @ r' @ post')"
    by (simp add: occurrence_def)
  with l have e: "p @ r @ post = p' @ r' @ post'" by simp
  from a b have pp: "p = ''v='' \<or> p = ''/''" "p' = ''v='' \<or> p' = ''/''"
    by (simp_all add: occurrence_def)
  with e have p: "p = p'" by auto
  with e have "r @ post = r' @ post'" by simp
  moreover from a b have "length r = length r'" by (simp add: occurrence_def)
  ultimately show ?thesis using p by simp
qed

lemma occurrence_found:
  assumes "occurrence s pre p r post"
  shows "re_search s \<noteq> None"
proof
  assume "re_search s = None"
  moreover from assms have "s = pre @ (p @ r @ post)" by (simp add: occurrence_def)
  ultimately have "match_here (p @ r @ post) = None"
    unfolding re_search_None_iff by blast
  with occurrence_match [OF assms] show False by simp
qed

lemma re_search_leftmost:
  assumes "re_search s = Some r"
  shows "\<exists>pre p post. occurrence s pre p r post \<and>
           (\<forall>pre' p' r' post'. occurrence s pre' p' r' post' \<longrightarrow> length pre \<le> length pre')"
proof -
  from assms obtain pre rest where e: "s = pre @ rest" and m: "match_here rest = Some r"
    and l: "\<forall>pre' rest'. s = pre' @ rest' \<and> length pre' < length pre \<longrightarrow> match_here rest' = None"
    unfolding re_search_Some_iff by blast
  from match_occurrence [OF e m] obtain p post where o: "occurrence s pre p r post" by blast
  have "\<forall>pre' p' r' post'. occurrence s pre' p' r' post' \<longrightarrow> length pre \<le> length pre'"
  proof (intro allI impI)
    fix pre' p' r' post' assume o': "occurrence s pre' p' r' post'"
    show "length pre \<le> length pre'"
    proof (rule ccontr)
      assume "\<not> length pre \<le> length pre'"
      then have "length pre' < length pre" by simp
      moreover from o' have "s = pre' @ (p' @ r' @ post')" by (simp add: occurrence_def)
      ultimately have "match_here (p' @ r' @ post') = None" using l by blast
      with occurrence_match [OF o'] show False by simp
    qed
  qed
  with o show ?thesis by blast
qed

lemma leftmost_occurrence_found:
  assumes o: "occurrence s pre p r post"
    and l: "\<forall>pre' p' r' post'. occurrence s pre' p' r' post' \<longrightarrow> length pre \<le> length pre'"
  shows "re_search s = Some r"
proof -
  from occurrence_found [OF o] obtain r0 where s: "re_search s = Some r0" by auto
  from re_search_leftmost [OF s] obtain pre0 p0 post0 where
    o0: "occurrence s pre0 p0 r0 post0" and
    l0: "\<forall>pre' p' r' post'. occurrence s pre' p' r' post' \<longrightarrow> length pre0 \<le> length pre'"
    by blast
  from l o0 have "length pre \<le> length pre0" by blast
  moreover from l0 o have "length pre0 \<le> length pre" by blast
  ultimately have "length pre = length pre0" by simp
  from occurrence_same_start [OF o o0 this] s show ?thesis by simp
qed

lemma extract_video_id_eq: "extract_video_id s = re_search s"
  by (simp add: extract_video_id_def split: option.split)

lemma no_match_before:
  assumes "\<forall>i<n. match_here (drop i s) = None"
  shows "\<forall>pre' p' r' post'. occurrence s pre' p' r' post' \<longrightarrow> n \<le> length pre'"
proof (intro allI impI)
  fix pre' p' r' post' assume o: "occurrence s pre' p' r' post'"
  then have "drop (length pre') s = p' @ r' @ post'" by (simp add: occurrence_def)
  with occurrence_match [OF o] have "match_here (drop (length pre') s) \<noteq> None" by simp
  with assms show "n \<le> length pre'" by (meson not_le)
qed

lemma occurrence_has_prefix_char:
  assumes "occurrence s pre p r post"
  shows "CHR ''/'' \<in> set s \<or> CHR ''='' \<in> set s"
  using assms by (auto simp: occurrence_def)


subsection \<open>The claims about \<^verbatim>\<open>extract_video_id\<close>\<close>

text \<open>
  C5. On \<^verbatim>\<open>https://www.youtube.com/watch?v=dQw4w9WgXcQ\<close> the extraction returns
  \<^verbatim>\<open>dQw4w9WgXcQ\<close>, and on \<^verbatim>\<open>https://youtu.be/dQw4w9WgXcQ?t=5\<close>, where a query
  parameter follows the ID, it returns \<^verbatim>\<open>dQw4w9WgXcQ\<close> as well.
\<close>

theorem extract_video_id_scenarios:
  "extract_video_id ''https://www.youtube.com/watch?v=dQw4w9WgXcQ'' = Some ''dQw4w9WgXcQ'' \<and>
   extract_video_id ''https://youtu.be/dQw4w9WgXcQ?t=5'' = Some ''dQw4w9WgXcQ''"
  by (simp add: extract_video_id_def match_here_def id_group_def is_id_char_def)

text \<open>
  C1, as amended. When the input contains an occurrence of \<^verbatim>\<open>v=\<close> or \<^verbatim>\<open>/\<close> immediately
  followed by eleven characters of the class, the extraction returns a result; and when
  no occurrence starts further left, the result is exactly the eleven characters of this
  occurrence.
\<close>

theorem extract_video_id_leftmost_occurrence:
  "occurrence s pre p r post \<Longrightarrow>
     extract_video_id s \<noteq> None \<and>
     ((\<forall>pre' p' r' post'. occurrence s pre' p' r' post' \<longrightarrow> length pre \<le> length pre')
        \<longrightarrow> extract_video_id s = Some r)"
  using occurrence_found leftmost_occurrence_found
  unfolding extract_video_id_eq by blast

theorem extract_video_id_leftmost_occurrence_witness:
  "occurrence ''https://youtu.be/dQw4w9WgXcQ?t=5''
     ''https://youtu.be'' ''/'' ''dQw4w9WgXcQ'' ''?t=5'' \<and>
   extract_video_id ''https://youtu.be/dQw4w9WgXcQ?t=5'' = Some ''dQw4w9WgXcQ''"
proof -
  have o: "occurrence ''https://youtu.be/dQw4w9WgXcQ?t=5''
     ''https://youtu.be'' ''/'' ''dQw4w9WgXcQ'' ''?t=5''"
    by (simp add: occurrence_def is_id_char_def)
  have "\<forall>i<16. match_here (drop i ''https://youtu.be/dQw4w9WgXcQ?t=5'') = None"
    by (simp add: All_less_Suc eval_nat_numeral match_here_def id_group_def is_id_char_def)
  note l = no_match_before [OF this]
  have len: "length ''https://youtu.be'' = 16" by simp
  from extract_video_id_leftmost_occurrence [OF o] l o show ?thesis
    unfolding len by blast
qed

text \<open>
  C1 as it is written fails where an occurrence stands to the right of another one: the
  input below contains \<^verbatim>\<open>v=dQw4w9WgXcQ\<close>, and the extraction returns \<^verbatim>\<open>attribution\<close>,
  the eleven characters after the \<^verbatim>\<open>/\<close> of \<^verbatim>\<open>/attribution_link\<close>.
\<close>

theorem extract_video_id_later_occurrence_counterexample:
  "occurrence ''https://www.youtube.com/attribution_link?u=/watch?v=dQw4w9WgXcQ''
     ''https://www.youtube.com/attribution_link?u=/watch?'' ''v='' ''dQw4w9WgXcQ'' '''' \<and>
   extract_video_id ''https://www.youtube.com/attribution_link?u=/watch?v=dQw4w9WgXcQ''
     = Some ''attribution'' \<and>
   extract_video_id ''https://www.youtube.com/attribution_link?u=/watch?v=dQw4w9WgXcQ''
     \<noteq> Some ''dQw4w9WgXcQ''"
  by (simp add: occurrence_def extract_video_id_def match_here_def id_group_def is_id_char_def)

text \<open>
  C2. A result of the extraction is a string of exactly eleven characters of the class;
  it stands in the input immediately after an occurrence of \<^verbatim>\<open>v=\<close> or of \<^verbatim>\<open>/\<close>; and no
  other such occurrence starts before it, nor does the run of any other occurrence start
  before its run.
\<close>

theorem extract_video_id_sound:
  "extract_video_id s = Some r \<Longrightarrow>
     length r = 11 \<and> list_all is_id_char r \<and>
     (\<exists>pre p post. occurrence s pre p r post \<and>
        (\<forall>pre' p' r' post'. occurrence s pre' p' r' post' \<longrightarrow>
           length pre \<le> length pre' \<and> length (pre @ p) \<le> length (pre' @ p')))"
proof -
  assume "extract_video_id s = Some r"
  then have "re_search s = Some r" by (simp add: extract_video_id_eq)
  from re_search_leftmost [OF this] obtain pre p post where
    o: "occurrence s pre p r post" and
    l: "\<forall>pre' p' r' post'. occurrence s pre' p' r' post' \<longrightarrow> length pre \<le> length pre'"
    by blast
  have "\<forall>pre' p' r' post'. occurrence s pre' p' r' post' \<longrightarrow>
           length pre \<le> length pre' \<and> length (pre @ p) \<le> length (pre' @ p')"
  proof (intro allI impI)
    fix pre' p' r' post' assume o': "occurrence s pre' p' r' post'"
    with l have le: "length pre \<le> length pre'" by blast
    have "length (pre @ p) \<le> length (pre' @ p')"
    proof (cases "length pre = length pre'")
      case True
      from occurrence_same_start [OF o o' True] True show ?thesis by simp
    next
      case False
      with le have "length pre < length pre'" by simp
      moreover from o have "length p \<le> 2" by (auto simp: occurrence_def)
      moreover from o' have "1 \<le> length p'" by (auto simp: occurrence_def)
      ultimately show ?thesis by simp
    qed
    with le show "length pre \<le> length pre' \<and> length (pre @ p) \<le> length (pre' @ p')"
      by simp
  qed
  with o show ?thesis by (auto simp: occurrence_def)
qed

theorem extract_video_id_sound_witness:
  "extract_video_id ''https://www.youtube.com/watch?v=dQw4w9WgXcQ&t=30s''
     = Some ''dQw4w9WgXcQ'' \<and>
   length ''dQw4w9WgXcQ'' = 11 \<and> list_all is_id_char ''dQw4w9WgXcQ'' \<and>
   (\<exists>pre p post. occurrence ''https://www.youtube.com/watch?v=dQw4w9WgXcQ&t=30s''
      pre p ''dQw4w9WgXcQ'' post)"
proof -
  have e: "extract_video_id ''https://www.youtube.com/watch?v=dQw4w9WgXcQ&t=30s''
     = Some ''dQw4w9WgXcQ''"
    by (simp add: extract_video_id_def match_here_def id_group_def is_id_char_def)
  from extract_video_id_sound [OF e] e show ?thesis by blast
qed

text \<open>
  C4. When the input contains no occurrence of \<^verbatim>\<open>v=\<close> or \<^verbatim>\<open>/\<close> immediately followed by
  eleven characters of the class, the extraction returns \<open>None\<close>; in particular it
  returns \<open>None\<close> on a bare video ID, eleven characters of the class and nothing else.
\<close>

theorem extract_video_id_not_found:
  "((\<forall>pre p r post. \<not> occurrence s pre p r post) \<longrightarrow> extract_video_id s = None) \<and>
   (length s = 11 \<and> list_all is_id_char s \<longrightarrow> extract_video_id s = None)"
proof (intro conjI impI)
  assume n: "\<forall>pre p r post. \<not> occurrence s pre p r post"
  show "extract_video_id s = None"
  proof (cases "re_search s")
    case None
    then show ?thesis by (simp add: extract_video_id_eq)
  next
    case (Some r)
    from re_search_leftmost [OF Some] n show ?thesis by blast
  qed
next
  assume b: "length s = 11 \<and> list_all is_id_char s"
  show "extract_video_id s = None"
  proof (cases "re_search s")
    case None
    then show ?thesis by (simp add: extract_video_id_eq)
  next
    case (Some r)
    from re_search_leftmost [OF Some] obtain pre p post where "occurrence s pre p r post"
      by blast
    then have "length s = length pre + length p + 11 + length post" "1 \<le> length p"
      by (auto simp: occurrence_def)
    with b show ?thesis by simp
  qed
qed

theorem extract_video_id_not_found_witness:
  "length ''dQw4w9WgXcQ'' = 11 \<and> list_all is_id_char ''dQw4w9WgXcQ'' \<and>
   extract_video_id ''dQw4w9WgXcQ'' = None \<and> extract_video_id ''not a url'' = None"
proof -
  have b: "length ''dQw4w9WgXcQ'' = 11 \<and> list_all is_id_char ''dQw4w9WgXcQ''"
    by (simp add: is_id_char_def)
  have n: "\<forall>pre p r post. \<not> occurrence ''not a url'' pre p r post"
  proof (intro allI notI)
    fix pre p r post assume "occurrence ''not a url'' pre p r post"
    from occurrence_has_prefix_char [OF this] show False by simp
  qed
  from extract_video_id_not_found [of "''dQw4w9WgXcQ''"]
    extract_video_id_not_found [of "''not a url''"] b n
  show ?thesis by blast
qed

text \<open>
  C9, as amended. When the input contains \<^verbatim>\<open>v=\<close> or \<^verbatim>\<open>/\<close> followed by a run of more
  than eleven characters of the class, the extraction still returns a result: nothing is
  asked of the character after the eleventh, and the longer run is not rejected. When no
  occurrence starts further left, the result is the first eleven characters of that run.
\<close>

theorem extract_video_id_overlong_run:
  "s = pre @ p @ run @ post \<and> (p = ''v='' \<or> p = ''/'') \<and>
   11 < length run \<and> list_all is_id_char run \<Longrightarrow>
     extract_video_id s \<noteq> None \<and>
     ((\<forall>pre' p' r' post'. occurrence s pre' p' r' post' \<longrightarrow> length pre \<le> length pre')
        \<longrightarrow> extract_video_id s = Some (take 11 run))"
proof -
  assume a: "s = pre @ p @ run @ post \<and> (p = ''v='' \<or> p = ''/'') \<and>
   11 < length run \<and> list_all is_id_char run"
  then have "s = pre @ p @ take 11 run @ (drop 11 run @ post)" by simp
  moreover from a have "list_all is_id_char (take 11 run)"
    by (auto simp: list_all_iff dest: in_set_takeD)
  ultimately have o: "occurrence s pre p (take 11 run) (drop 11 run @ post)"
    using a unfolding occurrence_def by simp
  from occurrence_found [OF o] leftmost_occurrence_found [OF o] show ?thesis
    unfolding extract_video_id_eq by blast
qed

theorem extract_video_id_overlong_run_witness:
  "11 < length ''dQw4w9WgXcQ_extra'' \<and> list_all is_id_char ''dQw4w9WgXcQ_extra'' \<and>
   extract_video_id ''v=dQw4w9WgXcQ_extra&t=1'' = Some ''dQw4w9WgXcQ''"
proof -
  have a: "''v=dQw4w9WgXcQ_extra&t=1'' = [] @ ''v='' @ ''dQw4w9WgXcQ_extra'' @ ''&t=1'' \<and>
     (''v='' = ''v='' \<or> ''v='' = ''/'') \<and>
     11 < length ''dQw4w9WgXcQ_extra'' \<and> list_all is_id_char ''dQw4w9WgXcQ_extra''"
    by (simp add: is_id_char_def)
  have l: "\<forall>pre' p' r' post'. occurrence ''v=dQw4w9WgXcQ_extra&t=1'' pre' p' r' post'
             \<longrightarrow> length ([]::string) \<le> length pre'"
    by simp
  have t: "take 11 ''dQw4w9WgXcQ_extra'' = ''dQw4w9WgXcQ''" by simp
  from extract_video_id_overlong_run [OF a] l
  have "extract_video_id ''v=dQw4w9WgXcQ_extra&t=1'' = Some (take 11 ''dQw4w9WgXcQ_extra'')"
    by blast
  with a show ?thesis unfolding t by blast
qed

text \<open>
  C9 as it is written fails where the long run stands to the right of another occurrence:
  the input below contains \<^verbatim>\<open>/\<close> followed by the run \<^verbatim>\<open>dQw4w9WgXcQ0\<close> of twelve
  characters, and the extraction returns \<^verbatim>\<open>transcripts\<close>, not the first eleven characters
  of that run.
\<close>

theorem extract_video_id_overlong_run_counterexample:
  "''https://example.com/transcripts/dQw4w9WgXcQ0'' =
     ''https://example.com/transcripts'' @ ''/'' @ ''dQw4w9WgXcQ0'' @ '''' \<and>
   11 < length ''dQw4w9WgXcQ0'' \<and> list_all is_id_char ''dQw4w9WgXcQ0'' \<and>
   extract_video_id ''https://example.com/transcripts/dQw4w9WgXcQ0'' = Some ''transcripts'' \<and>
   extract_video_id ''https://example.com/transcripts/dQw4w9WgXcQ0''
     \<noteq> Some (take 11 ''dQw4w9WgXcQ0'')"
  by (simp add: extract_video_id_def match_here_def id_group_def is_id_char_def)

section \<open>Properties of the transcript assembly\<close>

lemma texts_all_str:
  "map (\<lambda>entry. entry ''text'') segs = map (\<lambda>t. Some (PStr t)) ts \<Longrightarrow>
     texts segs = Inr (map PStr ts)"
proof (induction segs arbitrary: ts)
  case Nil
  then show ?case by simp
next
  case (Cons e es)
  then obtain t ts' where ts: "ts = t # ts'" by (cases ts) auto
  with Cons.prems have "e ''text'' = Some (PStr t)"
    and "map (\<lambda>entry. entry ''text'') es = map (\<lambda>t. Some (PStr t)) ts'" by auto
  with Cons.IH ts show ?case by (simp add: getitem_text_def)
qed

lemma str_items_all_str: "str_items i (map PStr ts) = Inr ts"
  by (induction ts arbitrary: i) auto

lemma foldl_sep: "foldl (\<lambda>acc u. acc @ sep @ u) a ts = a @ concat (map (\<lambda>u. sep @ u) ts)"
  by (induction ts arbitrary: a) auto

lemma join_concat: "join sep (t # ts) = t @ concat (map (\<lambda>u. sep @ u) ts)"
  by (induction ts arbitrary: t) auto

lemma join_assembled: "join [CHR 0x0A] ts = assembled ts"
proof (cases ts)
  case Nil
  then show ?thesis by (simp add: assembled_def)
next
  case (Cons t rest)
  then show ?thesis by (simp only: assembled_def list.case foldl_sep join_concat)
qed

text \<open>
  C3. When the retrieval call returns a list of segments whose \<^verbatim>\<open>text\<close> fields are the
  strings \<open>t1 .. tN\<close>, in this order, \<^verbatim>\<open>fetch_transcript\<close> returns
  \<open>t1 + "\n" + t2 + ... + "\n" + tN\<close>; for no segment at all it returns the empty string.
\<close>

theorem fetch_transcript_assembles:
  "get_transcript video_id = Inr segs \<and>
   map (\<lambda>entry. entry ''text'') segs = map (\<lambda>t. Some (PStr t)) ts \<Longrightarrow>
     fetch_transcript get_transcript video_id = Inr (assembled ts) \<and>
     (ts = [] \<longrightarrow> fetch_transcript get_transcript video_id = Inr [])"
proof -
  assume a: "get_transcript video_id = Inr segs \<and>
   map (\<lambda>entry. entry ''text'') segs = map (\<lambda>t. Some (PStr t)) ts"
  then have "texts segs = Inr (map PStr ts)" by (simp add: texts_all_str)
  with a have "fetch_transcript get_transcript video_id = Inr (assembled ts)"
    by (simp add: fetch_transcript_def str_join_def str_items_all_str join_assembled)
  then show ?thesis by (auto simp: assembled_def)
qed

theorem fetch_transcript_assembles_witness:
  "fetch_transcript
     (\<lambda>v. Inr [[''text'' \<mapsto> PStr ''Hello'', ''start'' \<mapsto> PFloat 0, ''duration'' \<mapsto> PFloat 1.5],
               [''text'' \<mapsto> PStr ''world'', ''start'' \<mapsto> PFloat 1.5, ''duration'' \<mapsto> PFloat 2]])
     ''dQw4w9WgXcQ''
   = Inr (''Hello'' @ [CHR 0x0A] @ ''world'') \<and>
   fetch_transcript (\<lambda>v. Inr []) ''dQw4w9WgXcQ'' = Inr []"
  using fetch_transcript_assembles [of
     "\<lambda>v. Inr [[''text'' \<mapsto> PStr ''Hello'', ''start'' \<mapsto> PFloat 0, ''duration'' \<mapsto> PFloat 1.5],
               [''text'' \<mapsto> PStr ''world'', ''start'' \<mapsto> PFloat 1.5, ''duration'' \<mapsto> PFloat 2]]"
     "''dQw4w9WgXcQ''" _ "[''Hello'', ''world'']"]
    fetch_transcript_assembles [of "\<lambda>v. Inr []" "''dQw4w9WgXcQ''" "[]" "[]"]
  by (simp add: assembled_def)

section \<open>Properties of the button flow\<close>

lemmas trace_defs = errors_shown_def extractor_calls_def fetcher_calls_def results_shown_def
  page_head_def page_result_def

lemma extract_video_id_Nil: "extract_video_id [] = None"
  by (simp add: extract_video_id_def match_here_def)

lemma no_prefix_char_not_found:
  assumes "CHR ''/'' \<notin> set s" "CHR ''='' \<notin> set s"
  shows "extract_video_id s = None"
proof (cases "re_search s")
  case None
  then show ?thesis by (simp add: extract_video_id_eq)
next
  case (Some r)
  from re_search_leftmost [OF Some] obtain pre p post where "occurrence s pre p r post"
    by blast
  from occurrence_has_prefix_char [OF this] assms show ?thesis by simp
qed

lemma whitespace_not_prefix_char:
  "is_whitespace c \<Longrightarrow> c \<noteq> CHR ''/'' \<and> c \<noteq> CHR ''=''"
  by (auto simp: is_whitespace_def)

lemma whitespace_no_prefix_char:
  assumes "list_all is_whitespace s"
  shows "CHR ''/'' \<notin> set s \<and> CHR ''='' \<notin> set s"
  using assms whitespace_not_prefix_char unfolding list_all_iff by blast

text \<open>
  C6. With the button pressed and the text field empty, the run shows exactly the message
  \<^verbatim>\<open>Please enter a YouTube URL.\<close>, calls neither \<^verbatim>\<open>extract_video_id\<close> nor
  \<^verbatim>\<open>fetch_transcript\<close>, and ends there. With a text that is not empty and on which the
  extraction returns \<open>None\<close>, the run shows exactly
  \<^verbatim>\<open>Invalid YouTube URL. Please check the link and try again.\<close>, never calls
  \<^verbatim>\<open>fetch_transcript\<close>, and ends there.
\<close>

theorem main_input_errors:
  "button_pressed inp \<Longrightarrow>
     (video_url inp = [] \<longrightarrow>
        errors_shown (main get_transcript inp) = [''Please enter a YouTube URL.''] \<and>
        extractor_calls (main get_transcript inp) = [] \<and>
        fetcher_calls (main get_transcript inp) = [] \<and>
        results_shown (main get_transcript inp) = [] \<and>
        last (main get_transcript inp) = Error ''Please enter a YouTube URL.'') \<and>
     (video_url inp \<noteq> [] \<and> extract_video_id (video_url inp) = None \<longrightarrow>
        errors_shown (main get_transcript inp) =
          [''Invalid YouTube URL. Please check the link and try again.''] \<and>
        fetcher_calls (main get_transcript inp) = [] \<and>
        results_shown (main get_transcript inp) = [] \<and>
        last (main get_transcript inp) =
          Error ''Invalid YouTube URL. Please check the link and try again.'')"
  by (simp add: main_def trace_defs)

theorem main_input_errors_witness:
  "errors_shown (main (\<lambda>v. Inr []) \<lparr>video_url = [], button_pressed = True\<rparr>)
     = [''Please enter a YouTube URL.''] \<and>
   extractor_calls (main (\<lambda>v. Inr []) \<lparr>video_url = [], button_pressed = True\<rparr>) = [] \<and>
   fetcher_calls (main (\<lambda>v. Inr []) \<lparr>video_url = [], button_pressed = True\<rparr>) = [] \<and>
   extract_video_id ''not a url'' = None \<and>
   errors_shown (main (\<lambda>v. Inr []) \<lparr>video_url = ''not a url'', button_pressed = True\<rparr>)
     = [''Invalid YouTube URL. Please check the link and try again.''] \<and>
   fetcher_calls (main (\<lambda>v. Inr []) \<lparr>video_url = ''not a url'', button_pressed = True\<rparr>) = []"
proof -
  have n: "extract_video_id ''not a url'' = None"
    by (rule no_prefix_char_not_found) simp_all
  from main_input_errors [of "\<lparr>video_url = [], button_pressed = True\<rparr>" "\<lambda>v. Inr []"]
    main_input_errors [of "\<lparr>video_url = ''not a url'', button_pressed = True\<rparr>" "\<lambda>v. Inr []"]
    n
  show ?thesis by simp
qed

text \<open>
  C7. When the extraction succeeds and the retrieval call raises with description \<open>d\<close>,
  the run shows the message that starts with
  \<^verbatim>\<open>Sorry, there was a problem fetching the transcript: \<close>, goes on with \<open>d\<close> and ends
  with a full stop; no success notice, text area or download button follows. For
  \<open>d\<close> = \<^verbatim>\<open>No transcripts available\<close> the message is
  \<^verbatim>\<open>Sorry, there was a problem fetching the transcript: No transcripts available.\<close>
\<close>

theorem main_fetch_error:
  "button_pressed inp \<and> extract_video_id (video_url inp) = Some video_id \<and>
   get_transcript video_id = Inl (Retrieval_error d) \<Longrightarrow>
     errors_shown (main get_transcript inp) =
       [''Sorry, there was a problem fetching the transcript: '' @ d @ ''.''] \<and>
     results_shown (main get_transcript inp) = [] \<and>
     (d = ''No transcripts available'' \<longrightarrow>
        errors_shown (main get_transcript inp) =
          [''Sorry, there was a problem fetching the transcript: No transcripts available.''])"
proof -
  assume a: "button_pressed inp \<and> extract_video_id (video_url inp) = Some video_id \<and>
   get_transcript video_id = Inl (Retrieval_error d)"
  then have "video_url inp \<noteq> []" using extract_video_id_Nil by auto
  moreover from a have "fetch_transcript get_transcript video_id = Inl (Retrieval_error d)"
    by (simp add: fetch_transcript_def)
  ultimately have m: "main get_transcript inp =
     page_head @ [Call_extract_video_id (video_url inp),
                       Spinner_enter ''Fetching transcript...'',
                       Call_fetch_transcript video_id,
                       Error (''Sorry, there was a problem fetching the transcript: '' @
                              d @ ''.''),
                       Spinner_exit]"
    using a by (simp add: main_def)
  show ?thesis unfolding m by (simp add: trace_defs)
qed

theorem main_fetch_error_witness:
  "extract_video_id ''https://www.youtube.com/watch?v=dQw4w9WgXcQ'' = Some ''dQw4w9WgXcQ'' \<and>
   errors_shown
     (main (\<lambda>v. Inl (Retrieval_error ''No transcripts available''))
        \<lparr>video_url = ''https://www.youtube.com/watch?v=dQw4w9WgXcQ'', button_pressed = True\<rparr>)
     = [''Sorry, there was a problem fetching the transcript: No transcripts available.''] \<and>
   results_shown
     (main (\<lambda>v. Inl (Retrieval_error ''No transcripts available''))
        \<lparr>video_url = ''https://www.youtube.com/watch?v=dQw4w9WgXcQ'', button_pressed = True\<rparr>)
     = []"
proof -
  have e: "extract_video_id ''https://www.youtube.com/watch?v=dQw4w9WgXcQ'' = Some ''dQw4w9WgXcQ''"
    by (simp add: extract_video_id_def match_here_def id_group_def is_id_char_def)
  have "button_pressed \<lparr>video_url = ''https://www.youtube.com/watch?v=dQw4w9WgXcQ'', button_pressed = True\<rparr> \<and>
     extract_video_id (video_url \<lparr>video_url = ''https://www.youtube.com/watch?v=dQw4w9WgXcQ'', button_pressed = True\<rparr>)
       = Some ''dQw4w9WgXcQ'' \<and>
     (\<lambda>v. Inl (Retrieval_error ''No transcripts available'')) ''dQw4w9WgXcQ''
       = (Inl (Retrieval_error ''No transcripts available'') :: exn + segment list)"
    using e by simp
  from main_fetch_error [OF this] e show ?thesis by simp
qed

text \<open>
  C10. Only the empty string counts as no input. With the button pressed and a text that
  is not empty and made of whitespace only, the run does not show
  \<^verbatim>\<open>Please enter a YouTube URL.\<close>: it calls \<^verbatim>\<open>extract_video_id\<close> on the text, the
  extraction returns \<open>None\<close>, and the run shows
  \<^verbatim>\<open>Invalid YouTube URL. Please check the link and try again.\<close>
\<close>

theorem main_whitespace_input:
  "button_pressed inp \<and> video_url inp \<noteq> [] \<and> list_all is_whitespace (video_url inp) \<Longrightarrow>
     ''Please enter a YouTube URL.'' \<notin> set (errors_shown (main get_transcript inp)) \<and>
     extractor_calls (main get_transcript inp) = [video_url inp] \<and>
     extract_video_id (video_url inp) = None \<and>
     errors_shown (main get_transcript inp) =
       [''Invalid YouTube URL. Please check the link and try again.'']"
proof -
  assume a: "button_pressed inp \<and> video_url inp \<noteq> [] \<and> list_all is_whitespace (video_url inp)"
  then have n: "extract_video_id (video_url inp) = None"
    using whitespace_no_prefix_char no_prefix_char_not_found by blast
  with a have m: "main get_transcript inp =
     page_head @ [Call_extract_video_id (video_url inp),
                  Error ''Invalid YouTube URL. Please check the link and try again.'']"
    by (simp add: main_def)
  from n show ?thesis unfolding m by (simp add: trace_defs)
qed

theorem main_whitespace_input_witness:
  "list_all is_whitespace ''   '' \<and>
   extractor_calls (main (\<lambda>v. Inr []) \<lparr>video_url = ''   '', button_pressed = True\<rparr>) = [''   ''] \<and>
   errors_shown (main (\<lambda>v. Inr []) \<lparr>video_url = ''   '', button_pressed = True\<rparr>)
     = [''Invalid YouTube URL. Please check the link and try again.'']"
proof -
  have w: "list_all is_whitespace ''   ''" by (simp add: is_whitespace_def)
  then have "button_pressed \<lparr>video_url = ''   '', button_pressed = True\<rparr> \<and>
     video_url \<lparr>video_url = ''   '', button_pressed = True\<rparr> \<noteq> [] \<and>
     list_all is_whitespace (video_url \<lparr>video_url = ''   '', button_pressed = True\<rparr>)"
    by simp
  from main_whitespace_input [OF this, of "\<lambda>v. Inr []"] w show ?thesis by simp
qed

end
